theory Spec2Isabelle
  imports Main
begin

section \<open>YamlNav: key paths from indentation, and the symbol under the caret\<close>

text \<open>
  The development embeds \<^verbatim>\<open>lib/yaml_math.py\<close>: \<^verbatim>\<open>get_yaml_symbols\<close> (the spec's
  buildSymbols), \<^verbatim>\<open>get_selected_yaml_symbol\<close> (the spec's resolveCurrentSymbol) and
  \<^verbatim>\<open>iter_regions\<close>. Offsets are Python integers (\<open>int\<close>). A text is a \<open>string\<close>, one
  \<open>char\<close> per character of the buffer, so the model covers buffers whose characters
  have code points below 256.
\<close>

subsection \<open>Python built-ins used by the code\<close>

datatype py_error = IndexError

text \<open>\<^verbatim>\<open>str.isspace\<close> on one character (the code points below 256 that Python
  counts as whitespace).\<close>

definition py_isspace :: "char \<Rightarrow> bool" where
  "py_isspace c = (of_char c \<in> {9, 10, 11, 12, 13, 28, 29, 30, 31, 32, 133, 160 :: nat})"

text \<open>\<^verbatim>\<open>str.strip()\<close> with no argument.\<close>

definition py_strip :: "string \<Rightarrow> string" where
  "py_strip s = rev (dropWhile py_isspace (rev (dropWhile py_isspace s)))"

text \<open>How Python turns a slice bound into a position between \<open>0\<close> and the length:
  a negative bound counts from the end, and everything is clamped.\<close>

definition adjust_index :: "int \<Rightarrow> nat \<Rightarrow> nat" where
  "adjust_index i n = (if i < 0 then nat (max 0 (i + int n)) else min (nat i) n)"

text \<open>\<^verbatim>\<open>s[i:j]\<close>: never raises.\<close>

definition py_slice :: "string \<Rightarrow> int \<Rightarrow> int \<Rightarrow> string" where
  "py_slice s i j =
     (let lo = adjust_index i (length s); hi = adjust_index j (length s)
      in take (hi - lo) (drop lo s))"

text \<open>The downward scan of \<^verbatim>\<open>str.rfind\<close> for a one-character needle: the highest
  position \<open>k\<close> with \<open>lo \<le> k < hi\<close> holding the character, or \<open>-1\<close>.\<close>

fun rfind_scan :: "char \<Rightarrow> string \<Rightarrow> nat \<Rightarrow> nat \<Rightarrow> int" where
  "rfind_scan c s lo 0 = - 1"
| "rfind_scan c s lo (Suc k) =
     (if k < lo then - 1 else if s ! k = c then int k else rfind_scan c s lo k)"

text \<open>\<^verbatim>\<open>s.rfind(c, start, stop)\<close> for a one-character needle: never raises.\<close>

definition py_rfind :: "string \<Rightarrow> char \<Rightarrow> int \<Rightarrow> int \<Rightarrow> int" where
  "py_rfind s c start stop =
     rfind_scan c s (adjust_index start (length s)) (adjust_index stop (length s))"

text \<open>\<^verbatim>\<open>sep.join(items)\<close>.\<close>

fun py_join :: "string \<Rightarrow> string list \<Rightarrow> string" where
  "py_join sep [] = []"
| "py_join sep [x] = x"
| "py_join sep (x # y # ys) = x @ sep @ py_join sep (y # ys)"

text \<open>\<^verbatim>\<open>xs[-1]\<close> and \<^verbatim>\<open>xs.pop()\<close> raise IndexError on the empty list. The value
  \<^verbatim>\<open>pop\<close> returns is dropped by the code, so the model returns the list that is left.\<close>

definition py_last :: "'a list \<Rightarrow> py_error + 'a" where
  "py_last xs = (if xs = [] then Inl IndexError else Inr (last xs))"

definition py_pop :: "'a list \<Rightarrow> py_error + 'a list" where
  "py_pop xs = (if xs = [] then Inl IndexError else Inr (butlast xs))"

subsection \<open>The host's data: regions and views\<close>

text \<open>\<^verbatim>\<open>sublime.Region\<close>: the anchor \<open>a\<close> and the caret \<open>b\<close>.\<close>

datatype region = Region (reg_a: int) (reg_b: int)

definition region_begin :: "region \<Rightarrow> int" where
  "region_begin r = min (reg_a r) (reg_b r)"

definition region_end :: "region \<Rightarrow> int" where
  "region_end r = max (reg_a r) (reg_b r)"

text \<open>\<^verbatim>\<open>Region.intersects\<close>, as the host's \<^verbatim>\<open>sublime.py\<close> defines it. No general
  theorem below unfolds it; only the evaluations at concrete inputs do.\<close>

definition intersects :: "region \<Rightarrow> region \<Rightarrow> bool" where
  "intersects lhs rhs =
     (let lb = region_begin lhs; le = region_end lhs;
          rb = region_begin rhs; re = region_end rhs
      in (lb = rb \<and> le = re) \<or>
         (rb > lb \<and> rb < le) \<or> (re > lb \<and> re < le) \<or>
         (lb > rb \<and> lb < re) \<or> (le > rb \<and> le < re))"

text \<open>What the code asks of a \<^verbatim>\<open>sublime.View\<close>: the buffer's text, the regions a
  selector matches, the selections, and the whole lines covering a region. The last
  three are the host's answers and stay parameters of the model.\<close>

record view =
  buffer :: string
  find_by_selector :: "string \<Rightarrow> region list"
  sel :: "region list"
  lines :: "region \<Rightarrow> region list"

definition view_size :: "view \<Rightarrow> int" where
  "view_size v = int (length (buffer v))"

definition view_substr :: "view \<Rightarrow> region \<Rightarrow> string" where
  "view_substr v r = py_slice (buffer v) (max 0 (region_begin r)) (max 0 (region_end r))"

subsection \<open>Symbols and levels\<close>

datatype symbol = Symbol (name: string) (region: region)

datatype level = Level (key: string) (indent: int)

definition KEY_SELECTOR :: string where
  "KEY_SELECTOR =
     ''meta.mapping.key.yaml string - meta.mapping.key meta.mapping - meta.mapping.key meta.sequence''"

definition newline :: char where
  "newline = CHR 0x0A"

subsection \<open>\<^verbatim>\<open>get_yaml_symbols\<close>\<close>

text \<open>Line 45: \<^verbatim>\<open>key = content[region.begin():region.end()].strip()\<close>.\<close>

definition key_of :: "string \<Rightarrow> region \<Rightarrow> string" where
  "key_of content r = py_strip (py_slice content (region_begin r) (region_end r))"

text \<open>Line 48:
  \<^verbatim>\<open>indent_level = region.begin() - content.rfind("\n", 0, region.begin()) - 1\<close>.\<close>

definition indent_level_of :: "string \<Rightarrow> region \<Rightarrow> int" where
  "indent_level_of content r =
     region_begin r - py_rfind content newline 0 (region_begin r) - 1"

text \<open>Lines 51-52: the \<^verbatim>\<open>while\<close> loop. The top of the stack is the end of the list.\<close>

function pop_levels :: "level list \<Rightarrow> int \<Rightarrow> py_error + level list" where
  "pop_levels current_path indent_level =
     (if length current_path > 0 then
        (case py_last current_path of
           Inl e \<Rightarrow> Inl e
         | Inr top_frame \<Rightarrow>
             if indent top_frame \<ge> indent_level then
               (case py_pop current_path of
                  Inl e \<Rightarrow> Inl e
                | Inr rest \<Rightarrow> pop_levels rest indent_level)
             else Inr current_path)
      else Inr current_path)"
  by pat_completeness auto
termination
  by (relation "measure (\<lambda>(p, _). length p)") (auto simp: py_pop_def split: if_splits)

declare pop_levels.simps [simp del]

text \<open>Lines 45-57: the body of the \<^verbatim>\<open>for\<close> loop, on the pair of the two lists the
  loop updates.\<close>

definition process_region ::
  "string \<Rightarrow> region \<Rightarrow> symbol list \<times> level list \<Rightarrow> py_error + (symbol list \<times> level list)" where
  "process_region content r st =
     (let symbols = fst st; current_path = snd st;
          k = key_of content r;
          indent_level = indent_level_of content r
      in case pop_levels current_path indent_level of
           Inl e \<Rightarrow> Inl e
         | Inr popped \<Rightarrow>
             (let current_path' = popped @ [Level k indent_level];
                  symbol_name = py_join ''.'' (map key current_path')
              in Inr (symbols @ [Symbol symbol_name r], current_path')))"

text \<open>Line 44: the \<^verbatim>\<open>for\<close> loop.\<close>

fun for_regions ::
  "string \<Rightarrow> region list \<Rightarrow> symbol list \<times> level list \<Rightarrow> py_error + (symbol list \<times> level list)" where
  "for_regions content [] st = Inr st"
| "for_regions content (r # rs) st =
     (case process_region content r st of
        Inl e \<Rightarrow> Inl e
      | Inr st' \<Rightarrow> for_regions content rs st')"

definition get_yaml_symbols :: "view \<Rightarrow> py_error + symbol list" where
  "get_yaml_symbols v =
     (let regions = find_by_selector v KEY_SELECTOR;
          content = view_substr v (Region 0 (view_size v))
      in case for_regions content regions ([], []) of
           Inl e \<Rightarrow> Inl e
         | Inr st \<Rightarrow> Inr (fst st))"

subsection \<open>\<^verbatim>\<open>get_selected_yaml_symbol\<close>\<close>

text \<open>Lines 86-91: the generator, as the list of what it yields.\<close>

definition iter_regions :: "view \<Rightarrow> region list" where
  "iter_regions v =
     map (\<lambda>s. Region (reg_b s) (reg_b s)) (sel v) @ sel v @ concat (map (lines v) (sel v))"

text \<open>Lines 76-78: the inner loop. \<^verbatim>\<open>yaml_symbols\<close> is the iterator that
  \<^verbatim>\<open>reversed(symbols)\<close> returns, and an iterator is consumed by the loop that reads it:
  the state of the iterator is the list of the symbols it has not given yet. The loop
  returns the symbol it stops at, if any, and the iterator as it leaves it.\<close>

fun scan_symbols :: "region \<Rightarrow> symbol list \<Rightarrow> symbol option \<times> symbol list" where
  "scan_symbols r [] = (None, [])"
| "scan_symbols r (s # rest) =
     (if intersects r (region s) then (Some s, rest) else scan_symbols r rest)"

text \<open>Lines 75-80: the outer loop, threading the iterator.\<close>

fun for_probes :: "region list \<Rightarrow> symbol list \<Rightarrow> symbol option" where
  "for_probes [] yaml_symbols = None"
| "for_probes (r # rs) yaml_symbols =
     (case scan_symbols r yaml_symbols of
        (Some s, _) \<Rightarrow> Some s
      | (None, left) \<Rightarrow> for_probes rs left)"

definition get_selected_yaml_symbol :: "symbol list \<Rightarrow> view \<Rightarrow> symbol option" where
  "get_selected_yaml_symbol symbols v =
     (if symbols = [] then None
      else if length (sel v) \<noteq> 1 then None
      else for_probes (iter_regions v) (rev symbols))"

subsection \<open>Notions used in the statements\<close>

text \<open>The frames that stay when frames are taken off the top (the end of the list)
  for as long as their indent is at least \<open>il\<close>.\<close>

definition kept_levels :: "level list \<Rightarrow> int \<Rightarrow> level list" where
  "kept_levels p il = rev (dropWhile (\<lambda>l. il \<le> indent l) (rev p))"

text \<open>The column of offset \<open>n\<close> in a text, in the spec's words: the number of
  characters between the offset and the most recent newline strictly before it.\<close>

definition column_of :: "string \<Rightarrow> nat \<Rightarrow> nat" where
  "column_of content n = length (takeWhile (\<lambda>c. c \<noteq> newline) (rev (take n content)))"

text \<open>Two small documents, with the key regions the host finds in them:
  \<^verbatim>\<open>a:\<close>, \<^verbatim>\<open>  b:\<close>, \<^verbatim>\<open>  c:\<close> (two siblings under \<^verbatim>\<open>a\<close>), and
  \<^verbatim>\<open>a:\<close>, \<^verbatim>\<open>  b:\<close>, \<^verbatim>\<open>c:\<close> (back to the left margin).\<close>

definition doc_siblings :: view where
  "doc_siblings =
     \<lparr>buffer = ''a:'' @ [newline] @ ''  b:'' @ [newline] @ ''  c:'' @ [newline],
      find_by_selector = (\<lambda>_. [Region 0 1, Region 5 6, Region 10 11]),
      sel = [Region 5 5],
      lines = (\<lambda>_. [Region 3 7])\<rparr>"

definition doc_dedent :: view where
  "doc_dedent =
     \<lparr>buffer = ''a:'' @ [newline] @ ''  b:'' @ [newline] @ ''c:'' @ [newline],
      find_by_selector = (\<lambda>_. [Region 0 1, Region 5 6, Region 8 9]),
      sel = [Region 5 5],
      lines = (\<lambda>_. [Region 3 7])\<rparr>"

text \<open>The resolver in the spec's words: the probe regions in their order (the caret,
  the selection, the whole lines), each tested against every symbol of the list from
  its end backward, the first intersecting symbol returned. It is here to be compared
  with \<open>get_selected_yaml_symbol\<close>.\<close>

fun probe_tiers_spec :: "region list \<Rightarrow> symbol list \<Rightarrow> symbol option" where
  "probe_tiers_spec [] symbols = None"
| "probe_tiers_spec (r # rs) symbols =
     (case find (\<lambda>s. intersects r (region s)) (rev symbols) of
        Some s \<Rightarrow> Some s
      | None \<Rightarrow> probe_tiers_spec rs symbols)"

definition resolveCurrentSymbol_spec :: "symbol list \<Rightarrow> view \<Rightarrow> symbol option" where
  "resolveCurrentSymbol_spec symbols v =
     (if symbols = [] then None
      else if length (sel v) > 1 then None
      else probe_tiers_spec (iter_regions v) symbols)"

text \<open>The symbols of \<open>doc_siblings\<close>, and a list of symbols whose regions are nested.\<close>

definition siblings_symbols :: "symbol list" where
  "siblings_symbols =
     [Symbol ''a'' (Region 0 1), Symbol ''a.b'' (Region 5 6), Symbol ''a.c'' (Region 10 11)]"

definition nested_symbols :: "symbol list" where
  "nested_symbols =
     [Symbol ''a'' (Region 0 10), Symbol ''a.b'' (Region 4 8), Symbol ''c'' (Region 20 22)]"

section \<open>Facts about the path builder\<close>

subsection \<open>The pop loop\<close>

lemma content_is_buffer: "view_substr v (Region 0 (view_size v)) = buffer v"
  by (simp add: view_substr_def view_size_def py_slice_def adjust_index_def region_begin_def region_end_def)

lemma pop_levels_Nil: "pop_levels [] il = Inr []"
  by (simp add: pop_levels.simps)

lemma pop_levels_snoc:
  "pop_levels (p @ [l]) il = (if il \<le> indent l then pop_levels p il else Inr (p @ [l]))"
  by (subst pop_levels.simps) (simp add: py_last_def py_pop_def)

lemma pop_levels_eq: "pop_levels p il = Inr (kept_levels p il)"
  by (induction p rule: rev_induct) (simp_all add: pop_levels_Nil pop_levels_snoc kept_levels_def)

lemma kept_levels_split:
  "\<exists>popped. p = kept_levels p il @ popped \<and> (\<forall>l\<in>set popped. il \<le> indent l)"
proof -
  let ?P = "\<lambda>l. il \<le> indent l"
  have "rev p = takeWhile ?P (rev p) @ dropWhile ?P (rev p)" by simp
  then have "p = rev (dropWhile ?P (rev p)) @ rev (takeWhile ?P (rev p))"
    by (metis rev_append rev_rev_ident)
  moreover have "\<forall>l\<in>set (rev (takeWhile ?P (rev p))). il \<le> indent l"
    by (auto dest: set_takeWhileD)
  ultimately show ?thesis unfolding kept_levels_def by blast
qed

lemma kept_levels_top:
  "kept_levels p il = [] \<or> indent (last (kept_levels p il)) < il"
proof (cases "dropWhile (\<lambda>l. il \<le> indent l) (rev p)")
  case Nil then show ?thesis by (simp add: kept_levels_def)
next
  case (Cons x xs)
  then have "\<not> il \<le> indent x" by (metis hd_dropWhile list.sel(1) list.distinct(1))
  with Cons show ?thesis by (simp add: kept_levels_def)
qed

lemma kept_levels_sorted:
  "sorted_wrt (<) (map indent p) \<Longrightarrow> sorted_wrt (<) (map indent (kept_levels p il))"
proof -
  assume s: "sorted_wrt (<) (map indent p)"
  obtain popped where "p = kept_levels p il @ popped" using kept_levels_split by blast
  then have "map indent p = map indent (kept_levels p il) @ map indent popped"
    by (metis map_append)
  with s show ?thesis by (simp add: sorted_wrt_append)
qed

lemma process_region_eq:
  "process_region content r (symbols, current_path) =
     Inr (symbols @ [Symbol (py_join ''.'' (map key (kept_levels current_path (indent_level_of content r)
              @ [Level (key_of content r) (indent_level_of content r)]))) r],
          kept_levels current_path (indent_level_of content r)
              @ [Level (key_of content r) (indent_level_of content r)])"
  by (simp add: process_region_def pop_levels_eq Let_def)

subsection \<open>The loop over the regions\<close>

lemma for_regions_append:
  "for_regions content (xs @ ys) st =
     (case for_regions content xs st of Inl e \<Rightarrow> Inl e | Inr st' \<Rightarrow> for_regions content ys st')"
  by (induction xs arbitrary: st) (auto split: sum.splits)

lemma process_region_total: "\<exists>st'. process_region content r st = Inr st'"
  by (cases st) (simp add: process_region_eq)

lemma for_regions_total: "\<exists>st'. for_regions content rs st = Inr st'"
proof (induction rs arbitrary: st)
  case Nil show ?case by simp
next
  case (Cons r rs)
  obtain st1 where "process_region content r st = Inr st1"
    using process_region_total by blast
  with Cons show ?case by simp
qed

lemma process_region_regions:
  "process_region content r st = Inr st' \<Longrightarrow> map region (fst st') = map region (fst st) @ [r]"
  by (cases st) (auto simp: process_region_eq)

lemma for_regions_regions:
  "for_regions content rs st = Inr st' \<Longrightarrow> map region (fst st') = map region (fst st) @ rs"
proof (induction rs arbitrary: st)
  case Nil then show ?case by simp
next
  case (Cons r rs)
  obtain st1 where p: "process_region content r st = Inr st1"
    using process_region_total by blast
  with Cons.prems have "for_regions content rs st1 = Inr st'" by simp
  from Cons.IH [OF this] process_region_regions [OF p] show ?case by simp
qed

lemma get_yaml_symbols_eq:
  "get_yaml_symbols v =
     (case for_regions (buffer v) (find_by_selector v KEY_SELECTOR) ([], []) of
        Inl e \<Rightarrow> Inl e | Inr st \<Rightarrow> Inr (fst st))"
  by (simp add: get_yaml_symbols_def content_is_buffer)

lemma get_yaml_symbols_Inr:
  "\<exists>st. for_regions (buffer v) (find_by_selector v KEY_SELECTOR) ([], []) = Inr st
      \<and> get_yaml_symbols v = Inr (fst st)"
proof -
  obtain st where "for_regions (buffer v) (find_by_selector v KEY_SELECTOR) ([], []) = Inr st"
    using for_regions_total by blast
  then show ?thesis by (simp add: get_yaml_symbols_eq)
qed

text \<open>
  Claim C8. \<^verbatim>\<open>get_yaml_symbols\<close> never raises: for every view, whatever regions the
  host reports (in any order, overlapping or not) and whatever the text, the loop runs to
  its end and a list of symbols is returned. The only operations of the code that can
  raise, \<^verbatim>\<open>current_path[-1]\<close> and \<^verbatim>\<open>current_path.pop()\<close>, are modelled as failing on
  the empty list.
\<close>

theorem get_yaml_symbols_never_raises:
  "\<exists>symbols. get_yaml_symbols v = Inr symbols"
  using get_yaml_symbols_Inr by blast

text \<open>
  Claim C4. \<^verbatim>\<open>get_yaml_symbols\<close> returns one symbol for each region the host reports,
  in the same order, and the region of the i-th symbol is the i-th reported region
  itself; no regions give no symbols.
\<close>

theorem get_yaml_symbols_one_per_token:
  "\<exists>symbols. get_yaml_symbols v = Inr symbols
      \<and> length symbols = length (find_by_selector v KEY_SELECTOR)
      \<and> map region symbols = find_by_selector v KEY_SELECTOR
      \<and> (find_by_selector v KEY_SELECTOR = [] \<longrightarrow> symbols = [])"
proof -
  obtain st where st: "for_regions (buffer v) (find_by_selector v KEY_SELECTOR) ([], []) = Inr st"
    and g: "get_yaml_symbols v = Inr (fst st)"
    using get_yaml_symbols_Inr by blast
  from for_regions_regions [OF st]
  have m: "map region (fst st) = find_by_selector v KEY_SELECTOR" by simp
  then have "length (fst st) = length (find_by_selector v KEY_SELECTOR)"
    by (metis length_map)
  with g m show ?thesis by auto
qed

theorem get_yaml_symbols_one_per_token_witness:
  "find_by_selector (doc_siblings\<lparr>find_by_selector := (\<lambda>_. [])\<rparr>) KEY_SELECTOR = []
     \<and> get_yaml_symbols (doc_siblings\<lparr>find_by_selector := (\<lambda>_. [])\<rparr>) = Inr []"
  using get_yaml_symbols_one_per_token [of "doc_siblings\<lparr>find_by_selector := (\<lambda>_. [])\<rparr>"]
  by auto

subsection \<open>The indent is the column\<close>

lemma rfind_scan_column:
  "n \<le> length s \<Longrightarrow>
     rfind_scan c s 0 n = int n - int (length (takeWhile (\<lambda>x. x \<noteq> c) (rev (take n s)))) - 1"
proof (induction n)
  case 0 show ?case by simp
next
  case (Suc k)
  then have k: "k < length s" by simp
  then have t: "take (Suc k) s = take k s @ [s ! k]" by (simp add: take_Suc_conv_app_nth)
  from Suc k show ?case by (simp add: t)
qed

lemma indent_level_of_column:
  assumes "0 \<le> region_begin r" and "region_begin r \<le> int (length content)"
  shows "indent_level_of content r = int (column_of content (nat (region_begin r)))"
proof -
  have n: "nat (region_begin r) \<le> length content" using assms by simp
  then have a: "adjust_index (region_begin r) (length content) = nat (region_begin r)"
    using assms by (simp add: adjust_index_def min_def)
  show ?thesis
    using assms rfind_scan_column [OF n, of newline]
    by (simp add: indent_level_of_def py_rfind_def a adjust_index_def column_of_def)
qed

lemma column_of_le: "n \<le> length s \<Longrightarrow> column_of s n \<le> n"
proof -
  assume "n \<le> length s"
  have "column_of s n \<le> length (rev (take n s))"
    unfolding column_of_def by (rule length_takeWhile_le)
  also have "\<dots> \<le> n" by simp
  finally show ?thesis .
qed

lemma column_of_no_newline:
  assumes "n \<le> length s" and "n - column_of s n \<le> j" and "j < n"
  shows "s ! j \<noteq> newline"
proof -
  let ?xs = "rev (take n s)"
  let ?P = "\<lambda>c. c \<noteq> newline"
  have len: "length (take n s) = n" using assms by simp
  define i where "i = n - 1 - j"
  have i: "i < column_of s n" using assms column_of_le [OF assms(1)] unfolding i_def by arith
  then have il: "i < length (takeWhile ?P ?xs)" by (simp add: column_of_def)
  then have "takeWhile ?P ?xs ! i = ?xs ! i" by (rule takeWhile_nth)
  moreover have "takeWhile ?P ?xs ! i \<in> set (takeWhile ?P ?xs)" using il by simp
  ultimately have "?P (?xs ! i)" by (metis set_takeWhileD)
  moreover have "?xs ! i = take n s ! (n - Suc i)"
    using i column_of_le [OF assms(1)] len by (simp add: rev_nth)
  moreover have "n - Suc i = j" using assms by (simp add: i_def)
  ultimately show ?thesis using assms by simp
qed

lemma column_of_newline_before:
  assumes "n \<le> length s" and "column_of s n < n"
  shows "s ! (n - column_of s n - 1) = newline"
proof -
  let ?xs = "rev (take n s)"
  let ?P = "\<lambda>c. c \<noteq> newline"
  have len: "length ?xs = n" using assms by simp
  have "length (takeWhile ?P ?xs) < length ?xs" using assms len by (simp add: column_of_def)
  then have "\<not> ?P (?xs ! length (takeWhile ?P ?xs))" by (rule nth_length_takeWhile)
  then have "?xs ! column_of s n = newline" by (simp add: column_of_def)
  moreover have "?xs ! column_of s n = take n s ! (n - Suc (column_of s n))"
    using assms by (simp add: rev_nth)
  ultimately show ?thesis using assms by simp
qed

lemma column_of_0: "column_of s 0 = 0"
  by (simp add: column_of_def)

lemma column_of_after_newline:
  assumes "0 < n" and "n \<le> length s" and "s ! (n - 1) = newline"
  shows "column_of s n = 0"
proof -
  obtain k where k: "n = Suc k" using assms(1) by (cases n) auto
  then have "k < length s" using assms by simp
  then have "take n s = take k s @ [s ! k]" by (simp add: k take_Suc_conv_app_nth)
  with assms k show ?thesis by (simp add: column_of_def)
qed

lemma process_region_path:
  "process_region content r st = Inr st' \<Longrightarrow>
     snd st' = kept_levels (snd st) (indent_level_of content r)
                 @ [Level (key_of content r) (indent_level_of content r)]"
  by (cases st) (auto simp: process_region_eq)

text \<open>
  Claim C3. For a token that lies in the document (its begin offset is between 0 and the
  length of the text), the indent that the loop body gives the frame it pushes is
  \<^verbatim>\<open>begin - rfind("\n", 0, begin) - 1\<close>, and this is the column of the begin offset:
  the number of characters between it and the most recent newline strictly before it,
  none of which is a newline, with a newline just before them unless they reach the
  start of the text. The indent is 0 for a token that begins the document or begins
  right after a newline.
\<close>

theorem indent_level_is_column:
  assumes "0 \<le> region_begin r" and "region_begin r \<le> int (length content)"
  shows "\<exists>symbols' path'.
           process_region content r (symbols, current_path) = Inr (symbols', path')
         \<and> path' \<noteq> []
         \<and> indent (last path') = region_begin r - py_rfind content newline 0 (region_begin r) - 1
         \<and> indent (last path') = int (column_of content (nat (region_begin r)))
         \<and> column_of content (nat (region_begin r)) \<le> nat (region_begin r)
         \<and> (\<forall>j. nat (region_begin r) - column_of content (nat (region_begin r)) \<le> j
                  \<and> j < nat (region_begin r) \<longrightarrow> content ! j \<noteq> newline)
         \<and> (column_of content (nat (region_begin r)) < nat (region_begin r) \<longrightarrow>
               content ! (nat (region_begin r) - column_of content (nat (region_begin r)) - 1) = newline)
         \<and> (region_begin r = 0 \<longrightarrow> indent (last path') = 0)
         \<and> (0 < region_begin r \<and> content ! (nat (region_begin r) - 1) = newline \<longrightarrow>
               indent (last path') = 0)"
proof -
  let ?n = "nat (region_begin r)"
  let ?il = "indent_level_of content r"
  let ?path = "kept_levels current_path ?il @ [Level (key_of content r) ?il]"
  have n: "?n \<le> length content" using assms by simp
  have col: "?il = int (column_of content ?n)"
    using assms by (rule indent_level_of_column)
  have p: "process_region content r (symbols, current_path) =
             Inr (symbols @ [Symbol (py_join ''.'' (map key ?path)) r], ?path)"
    by (rule process_region_eq)
  have l: "indent (last ?path) = ?il" by simp
  have c1: "indent (last ?path) = region_begin r - py_rfind content newline 0 (region_begin r) - 1"
    by (simp add: indent_level_of_def)
  have c2: "indent (last ?path) = int (column_of content ?n)" using col by simp
  have c3: "column_of content ?n \<le> ?n" using n by (rule column_of_le)
  have c4: "\<forall>j. ?n - column_of content ?n \<le> j \<and> j < ?n \<longrightarrow> content ! j \<noteq> newline"
    using column_of_no_newline [OF n] by blast
  have c5: "column_of content ?n < ?n \<longrightarrow> content ! (?n - column_of content ?n - 1) = newline"
    using column_of_newline_before [OF n] by blast
  have c6: "region_begin r = 0 \<longrightarrow> indent (last ?path) = 0"
    using c2 by (simp add: column_of_0)
  have c7: "0 < region_begin r \<and> content ! (?n - 1) = newline \<longrightarrow> indent (last ?path) = 0"
  proof
    assume h: "0 < region_begin r \<and> content ! (?n - 1) = newline"
    then have "0 < ?n" by simp
    from column_of_after_newline [OF this n] h c2 show "indent (last ?path) = 0" by simp
  qed
  have ne: "?path \<noteq> []" by simp
  from p ne c1 c2 c3 c4 c5 c6 c7 show ?thesis by blast
qed

theorem indent_level_is_column_witness:
  "(0::int) \<le> region_begin (Region 5 6)
   \<and> region_begin (Region 5 6) \<le> int (length (buffer doc_siblings))
   \<and> process_region (buffer doc_siblings) (Region 5 6) ([], [Level ''a'' 0])
        = Inr ([Symbol ''a.b'' (Region 5 6)], [Level ''a'' 0, Level ''b'' 2])
   \<and> column_of (buffer doc_siblings) 5 = 2
   \<and> buffer doc_siblings ! 2 = newline
   \<and> process_region (buffer doc_siblings) (Region 0 1) ([], [])
        = Inr ([Symbol ''a'' (Region 0 1)], [Level ''a'' 0])
   \<and> process_region (buffer doc_siblings) (Region 3 4) ([], [])
        = Inr ([Symbol '''' (Region 3 4)], [Level '''' 0])"
proof -
  have b: "(0::int) \<le> region_begin (Region 5 6)" by (simp add: region_begin_def)
  have e: "region_begin (Region 5 6) \<le> int (length (buffer doc_siblings))"
    by (simp add: region_begin_def doc_siblings_def)
  note t = indent_level_is_column [OF b e, of "[]" "[Level ''a'' 0]"]
  have p1: "process_region (buffer doc_siblings) (Region 5 6) ([], [Level ''a'' 0])
        = Inr ([Symbol ''a.b'' (Region 5 6)], [Level ''a'' 0, Level ''b'' 2])" by code_simp
  have p2: "column_of (buffer doc_siblings) 5 = 2" by code_simp
  have p3: "buffer doc_siblings ! 2 = newline" by code_simp
  have p4: "process_region (buffer doc_siblings) (Region 0 1) ([], [])
        = Inr ([Symbol ''a'' (Region 0 1)], [Level ''a'' 0])" by code_simp
  have p5: "process_region (buffer doc_siblings) (Region 3 4) ([], [])
        = Inr ([Symbol '''' (Region 3 4)], [Level '''' 0])" by code_simp
  from t b e p1 p2 p3 p4 p5 show ?thesis by blast
qed

subsection \<open>Pop, then push\<close>

lemma kept_levels_sibling:
  assumes "sorted_wrt (<) (map indent (below @ [top_frame]))" and "indent top_frame = il"
  shows "kept_levels (below @ [top_frame]) il = below"
proof -
  have "\<forall>l\<in>set below. indent l < il"
    using assms by (auto simp: sorted_wrt_append)
  then have "dropWhile (\<lambda>l. il \<le> indent l) (rev below) = rev below"
    by (cases "rev below") (auto simp: dropWhile_eq_self_iff)
  with assms show ?thesis by (simp add: kept_levels_def)
qed

lemma kept_levels_all:
  "\<forall>l\<in>set p. il \<le> indent l \<Longrightarrow> kept_levels p il = []"
  by (simp add: kept_levels_def)

lemma doc_siblings_symbols:
  "get_yaml_symbols doc_siblings =
     Inr [Symbol ''a'' (Region 0 1), Symbol ''a.b'' (Region 5 6), Symbol ''a.c'' (Region 10 11)]"
  by code_simp

lemma doc_dedent_symbols:
  "get_yaml_symbols doc_dedent =
     Inr [Symbol ''a'' (Region 0 1), Symbol ''a.b'' (Region 5 6), Symbol ''c'' (Region 8 9)]"
  by code_simp

lemma doc_indents:
  "map (indent_level_of (buffer doc_siblings)) (find_by_selector doc_siblings KEY_SELECTOR) = [0, 2, 2]"
  "map (indent_level_of (buffer doc_dedent)) (find_by_selector doc_dedent KEY_SELECTOR) = [0, 2, 0]"
  "map (key_of (buffer doc_siblings)) (find_by_selector doc_siblings KEY_SELECTOR) = [''a'', ''b'', ''c'']"
  "map (key_of (buffer doc_dedent)) (find_by_selector doc_dedent KEY_SELECTOR) = [''a'', ''b'', ''c'']"
  by code_simp+

text \<open>
  Claim C2. In the loop body, the frames taken off the top of the stack before the push
  are exactly a run at the top whose indents are all at least the token's indent, and
  what stays is empty or has a top frame of smaller indent; the new frame is pushed on
  what stays, and the name is joined from the result. On a stack of increasing indents a
  token whose indent equals the top frame's takes off that frame alone (it replaces it),
  and a token of indent 0 empties a stack of frames with indents from 0 up. The two
  documents with keys \<^verbatim>\<open>a, b, c\<close> at indents \<open>0, 2, 2\<close> and \<open>0, 2, 0\<close> give the
  names \<^verbatim>\<open>a, a.b, a.c\<close> and \<^verbatim>\<open>a, a.b, c\<close>.
\<close>

theorem pop_then_push:
  "(\<exists>kept popped.
       current_path = kept @ popped
     \<and> (\<forall>l\<in>set popped. indent_level_of content r \<le> indent l)
     \<and> (kept = [] \<or> indent (last kept) < indent_level_of content r)
     \<and> pop_levels current_path (indent_level_of content r) = Inr kept
     \<and> process_region content r (symbols, current_path) =
         Inr (symbols @ [Symbol (py_join ''.'' (map key
                  (kept @ [Level (key_of content r) (indent_level_of content r)]))) r],
              kept @ [Level (key_of content r) (indent_level_of content r)]))
   \<and> (sorted_wrt (<) (map indent (below @ [top_frame])) \<and> indent top_frame = il \<longrightarrow>
        pop_levels (below @ [top_frame]) il = Inr below)
   \<and> ((\<forall>l\<in>set deeper. 0 \<le> indent l) \<longrightarrow> pop_levels deeper 0 = Inr [])
   \<and> map (key_of (buffer doc_siblings)) (find_by_selector doc_siblings KEY_SELECTOR)
        = [''a'', ''b'', ''c'']
   \<and> map (indent_level_of (buffer doc_siblings)) (find_by_selector doc_siblings KEY_SELECTOR)
        = [0, 2, 2]
   \<and> (\<exists>symbols. get_yaml_symbols doc_siblings = Inr symbols
          \<and> map name symbols = [''a'', ''a.b'', ''a.c''])
   \<and> map (key_of (buffer doc_dedent)) (find_by_selector doc_dedent KEY_SELECTOR)
        = [''a'', ''b'', ''c'']
   \<and> map (indent_level_of (buffer doc_dedent)) (find_by_selector doc_dedent KEY_SELECTOR)
        = [0, 2, 0]
   \<and> (\<exists>symbols. get_yaml_symbols doc_dedent = Inr symbols
          \<and> map name symbols = [''a'', ''a.b'', ''c''])"
proof -
  let ?il = "indent_level_of content r"
  obtain popped where sp: "current_path = kept_levels current_path ?il @ popped"
      and ge: "\<forall>l\<in>set popped. ?il \<le> indent l"
    using kept_levels_split by blast
  have "current_path = kept_levels current_path ?il @ popped
     \<and> (\<forall>l\<in>set popped. ?il \<le> indent l)
     \<and> (kept_levels current_path ?il = [] \<or> indent (last (kept_levels current_path ?il)) < ?il)
     \<and> pop_levels current_path ?il = Inr (kept_levels current_path ?il)
     \<and> process_region content r (symbols, current_path) =
         Inr (symbols @ [Symbol (py_join ''.'' (map key
                  (kept_levels current_path ?il @ [Level (key_of content r) ?il]))) r],
              kept_levels current_path ?il @ [Level (key_of content r) ?il])"
    using sp ge kept_levels_top pop_levels_eq process_region_eq by blast
  then have general: "\<exists>kept popped.
       current_path = kept @ popped
     \<and> (\<forall>l\<in>set popped. ?il \<le> indent l)
     \<and> (kept = [] \<or> indent (last kept) < ?il)
     \<and> pop_levels current_path ?il = Inr kept
     \<and> process_region content r (symbols, current_path) =
         Inr (symbols @ [Symbol (py_join ''.'' (map key
                  (kept @ [Level (key_of content r) ?il]))) r],
              kept @ [Level (key_of content r) ?il])"
    by blast
  have sibling: "sorted_wrt (<) (map indent (below @ [top_frame])) \<and> indent top_frame = il \<longrightarrow>
        pop_levels (below @ [top_frame]) il = Inr below"
    using kept_levels_sibling [of below top_frame il] unfolding pop_levels_eq by blast
  have margin: "(\<forall>l\<in>set deeper. 0 \<le> indent l) \<longrightarrow> pop_levels deeper 0 = Inr []"
    using kept_levels_all [of deeper 0] unfolding pop_levels_eq by blast
  have s: "\<exists>symbols. get_yaml_symbols doc_siblings = Inr symbols
          \<and> map name symbols = [''a'', ''a.b'', ''a.c'']"
    by (simp add: doc_siblings_symbols)
  have d: "\<exists>symbols. get_yaml_symbols doc_dedent = Inr symbols
          \<and> map name symbols = [''a'', ''a.b'', ''c'']"
    by (simp add: doc_dedent_symbols)
  from general sibling margin s d doc_indents show ?thesis by blast
qed

theorem pop_then_push_witness:
  "sorted_wrt (<) (map indent ([Level ''a'' 0] @ [Level ''b'' 2]))
   \<and> indent (Level ''b'' 2) = 2
   \<and> pop_levels ([Level ''a'' 0] @ [Level ''b'' 2]) 2 = Inr [Level ''a'' 0]
   \<and> 0 \<le> indent (Level ''a'' 0) \<and> 0 \<le> indent (Level ''b'' 2)
   \<and> pop_levels [Level ''a'' 0, Level ''b'' 2] 0 = Inr []
   \<and> indent_level_of (buffer doc_siblings) (Region 10 11) = 2
   \<and> process_region (buffer doc_siblings) (Region 10 11)
        ([], [Level ''a'' 0, Level ''b'' 2])
        = Inr ([Symbol ''a.c'' (Region 10 11)], [Level ''a'' 0, Level ''c'' 2])"
proof -
  note t = pop_then_push [of "[Level ''a'' 0, Level ''b'' 2]" "buffer doc_siblings" "Region 10 11"
      "[]" "[Level ''a'' 0]" "Level ''b'' 2" 2 "[Level ''a'' 0, Level ''b'' 2]"]
  have h1: "sorted_wrt (<) (map indent ([Level ''a'' 0] @ [Level ''b'' 2]))
       \<and> indent (Level ''b'' 2) = 2" by simp
  have h2: "\<forall>l\<in>set [Level ''a'' 0, Level ''b'' 2]. 0 \<le> indent l" by simp
  from t h1 have w1: "pop_levels ([Level ''a'' 0] @ [Level ''b'' 2]) 2 = Inr [Level ''a'' 0]"
    by blast
  from t h2 have w2: "pop_levels [Level ''a'' 0, Level ''b'' 2] 0 = Inr []"
    by blast
  have w3: "indent_level_of (buffer doc_siblings) (Region 10 11) = 2" by code_simp
  have w4: "process_region (buffer doc_siblings) (Region 10 11)
        ([], [Level ''a'' 0, Level ''b'' 2])
        = Inr ([Symbol ''a.c'' (Region 10 11)], [Level ''a'' 0, Level ''c'' 2])" by code_simp
  from h1 w1 w2 w3 w4 show ?thesis by simp
qed

subsection \<open>The stack stays increasing\<close>

lemma sorted_indent_snoc:
  assumes "sorted_wrt (<) (map indent xs)" and "xs = [] \<or> indent (last xs) < il"
  shows "sorted_wrt (<) (map indent (xs @ [Level k il]))"
proof (cases xs rule: rev_cases)
  case Nil then show ?thesis by simp
next
  case (snoc ys y)
  with assms have "\<forall>z\<in>set ys. indent z < indent y" and "indent y < il"
    by (auto simp: sorted_wrt_append)
  then have "\<forall>z\<in>set xs. indent z < il" using snoc by auto
  with assms(1) show ?thesis by (simp add: sorted_wrt_append)
qed

lemma process_region_sorted:
  assumes "sorted_wrt (<) (map indent (snd st))" and "process_region content r st = Inr st'"
  shows "sorted_wrt (<) (map indent (snd st'))"
proof -
  let ?il = "indent_level_of content r"
  have "snd st' = kept_levels (snd st) ?il @ [Level (key_of content r) ?il]"
    using assms(2) by (rule process_region_path)
  moreover have "sorted_wrt (<) (map indent (kept_levels (snd st) ?il))"
    using assms(1) by (rule kept_levels_sorted)
  ultimately show ?thesis
    using kept_levels_top [of "snd st" ?il] sorted_indent_snoc by metis
qed

lemma for_regions_sorted:
  "sorted_wrt (<) (map indent (snd st)) \<Longrightarrow> for_regions content rs st = Inr st' \<Longrightarrow>
     sorted_wrt (<) (map indent (snd st'))"
proof (induction rs arbitrary: st)
  case Nil then show ?case by simp
next
  case (Cons r rs)
  obtain st1 where p: "process_region content r st = Inr st1"
    using process_region_total by blast
  with Cons.prems have f: "for_regions content rs st1 = Inr st'" by simp
  from Cons.prems(1) p have "sorted_wrt (<) (map indent (snd st1))"
    by (rule process_region_sorted)
  from Cons.IH [OF this f] show ?case .
qed

text \<open>
  Claim C9. After any number of iterations of the loop of \<^verbatim>\<open>get_yaml_symbols\<close> (the
  loop run on the first \<open>n\<close> regions), the indents of the frames on the stack increase
  strictly from the bottom to the top; and each loop body pushes its frame on a stack
  that is empty or whose top frame has a strictly smaller indent than the new frame.
\<close>

theorem stack_indents_increase:
  "(\<exists>symbols path.
       for_regions (buffer v) (take n (find_by_selector v KEY_SELECTOR)) ([], [])
         = Inr (symbols, path)
     \<and> sorted_wrt (<) (map indent path))
   \<and> (\<exists>below new_frame symbols'.
       process_region content r (symbols0, current_path) = Inr (symbols', below @ [new_frame])
     \<and> new_frame = Level (key_of content r) (indent_level_of content r)
     \<and> (below = [] \<or> indent (last below) < indent new_frame))"
proof -
  obtain st where st: "for_regions (buffer v) (take n (find_by_selector v KEY_SELECTOR)) ([], []) = Inr st"
    using for_regions_total by blast
  have "sorted_wrt (<) (map indent (snd (([], []) :: symbol list \<times> level list)))" by simp
  from for_regions_sorted [OF this st] have "sorted_wrt (<) (map indent (snd st))" .
  with st have first: "\<exists>symbols path.
       for_regions (buffer v) (take n (find_by_selector v KEY_SELECTOR)) ([], [])
         = Inr (symbols, path)
     \<and> sorted_wrt (<) (map indent path)"
    by (cases st) auto
  let ?il = "indent_level_of content r"
  have "process_region content r (symbols0, current_path) =
     Inr (symbols0 @ [Symbol (py_join ''.'' (map key (kept_levels current_path ?il
              @ [Level (key_of content r) ?il]))) r],
          kept_levels current_path ?il @ [Level (key_of content r) ?il])"
    by (rule process_region_eq)
  moreover have "kept_levels current_path ?il = []
      \<or> indent (last (kept_levels current_path ?il)) < indent (Level (key_of content r) ?il)"
    using kept_levels_top [of current_path ?il] by simp
  ultimately have second: "\<exists>below new_frame symbols'.
       process_region content r (symbols0, current_path) = Inr (symbols', below @ [new_frame])
     \<and> new_frame = Level (key_of content r) (indent_level_of content r)
     \<and> (below = [] \<or> indent (last below) < indent new_frame)"
    by blast
  from first second show ?thesis by blast
qed

theorem stack_indents_increase_witness:
  "for_regions (buffer doc_siblings) (take 2 (find_by_selector doc_siblings KEY_SELECTOR)) ([], [])
     = Inr ([Symbol ''a'' (Region 0 1), Symbol ''a.b'' (Region 5 6)],
            [Level ''a'' 0, Level ''b'' 2])
   \<and> sorted_wrt (<) (map indent [Level ''a'' 0, Level ''b'' 2])
   \<and> process_region (buffer doc_siblings) (Region 10 11)
        ([], [Level ''a'' 0, Level ''b'' 2])
        = Inr ([Symbol ''a.c'' (Region 10 11)], [Level ''a'' 0] @ [Level ''c'' 2])
   \<and> indent (last [Level ''a'' 0]) < indent (Level ''c'' 2)"
proof -
  have e: "for_regions (buffer doc_siblings) (take 2 (find_by_selector doc_siblings KEY_SELECTOR)) ([], [])
     = Inr ([Symbol ''a'' (Region 0 1), Symbol ''a.b'' (Region 5 6)],
            [Level ''a'' 0, Level ''b'' 2])" by code_simp
  have p: "process_region (buffer doc_siblings) (Region 10 11)
        ([], [Level ''a'' 0, Level ''b'' 2])
        = Inr ([Symbol ''a.c'' (Region 10 11)], [Level ''a'' 0] @ [Level ''c'' 2])" by code_simp
  from stack_indents_increase [of doc_siblings 2 "buffer doc_siblings" "Region 10 11" "[]"
      "[Level ''a'' 0, Level ''b'' 2]"] e p
  show ?thesis by simp
qed

subsection \<open>Names are the joined stack\<close>

lemma for_regions_symbols_prefix:
  "for_regions content rs st = Inr st' \<Longrightarrow> \<exists>ext. fst st' = fst st @ ext"
proof (induction rs arbitrary: st)
  case Nil then show ?case by simp
next
  case (Cons r rs)
  obtain st1 where p: "process_region content r st = Inr st1"
    using process_region_total by blast
  with Cons.prems have "for_regions content rs st1 = Inr st'" by simp
  from Cons.IH [OF this] obtain ext where e: "fst st' = fst st1 @ ext" by blast
  from p have "\<exists>s. fst st1 = fst st @ [s]" by (cases st) (auto simp: process_region_eq)
  with e show ?case by auto
qed

lemma kept_levels_subset: "set (kept_levels p il) \<subseteq> set p"
proof -
  obtain popped where "p = kept_levels p il @ popped" using kept_levels_split by blast
  then have "set p = set (kept_levels p il) \<union> set popped" by (metis set_append)
  then show ?thesis by blast
qed

lemma for_regions_frames:
  "for_regions content rs st = Inr st' \<Longrightarrow> l \<in> set (snd st') \<Longrightarrow>
     l \<in> set (snd st) \<or> (\<exists>r\<in>set rs. l = Level (key_of content r) (indent_level_of content r))"
proof (induction rs arbitrary: st)
  case Nil then show ?case by simp
next
  case (Cons r rs)
  obtain st1 where p: "process_region content r st = Inr st1"
    using process_region_total by blast
  with Cons.prems have f: "for_regions content rs st1 = Inr st'" by simp
  from Cons.IH [OF f Cons.prems(2)]
  have "l \<in> set (snd st1) \<or> (\<exists>r\<in>set rs. l = Level (key_of content r) (indent_level_of content r))" .
  moreover have "set (snd st1) \<subseteq> set (snd st) \<union> {Level (key_of content r) (indent_level_of content r)}"
    using process_region_path [OF p] kept_levels_subset [of "snd st" "indent_level_of content r"]
    by auto
  ultimately show ?case by auto
qed

lemma for_regions_nth:
  assumes i: "i < length rs"
      and whole: "for_regions content rs ([], []) = Inr st"
  shows "\<exists>emitted path.
           for_regions content (take (Suc i) rs) ([], []) = Inr (emitted, path)
         \<and> i < length (fst st)
         \<and> fst st ! i = Symbol (py_join ''.'' (map key path)) (rs ! i)
         \<and> path \<noteq> []
         \<and> last path = Level (key_of content (rs ! i)) (indent_level_of content (rs ! i))"
proof -
  let ?il = "indent_level_of content (rs ! i)"
  obtain sti where sti: "for_regions content (take i rs) ([], []) = Inr sti"
    using for_regions_total by blast
  from for_regions_regions [OF sti] have "map region (fst sti) = take i rs" by simp
  then have "length (fst sti) = length (take i rs)" by (metis length_map)
  then have len: "length (fst sti) = i" using i by simp
  let ?path = "kept_levels (snd sti) ?il @ [Level (key_of content (rs ! i)) ?il]"
  let ?sym = "Symbol (py_join ''.'' (map key ?path)) (rs ! i)"
  have p: "process_region content (rs ! i) sti = Inr (fst sti @ [?sym], ?path)"
    using process_region_eq [of content "rs ! i" "fst sti" "snd sti"] by simp
  have t: "take (Suc i) rs = take i rs @ [rs ! i]"
    using i by (rule take_Suc_conv_app_nth)
  have s1: "for_regions content (take (Suc i) rs) ([], []) = Inr (fst sti @ [?sym], ?path)"
    by (simp add: t for_regions_append sti p)
  have "rs = take (Suc i) rs @ drop (Suc i) rs" by simp
  then have "for_regions content rs ([], []) =
      for_regions content (drop (Suc i) rs) (fst sti @ [?sym], ?path)"
    using for_regions_append [of content "take (Suc i) rs" "drop (Suc i) rs" "([], [])"] s1
    by simp
  with whole have "for_regions content (drop (Suc i) rs) (fst sti @ [?sym], ?path) = Inr st"
    by simp
  from for_regions_symbols_prefix [OF this]
  obtain ext where "fst st = (fst sti @ [?sym]) @ ext" by auto
  then have "i < length (fst st)" and "fst st ! i = ?sym"
    using len by (simp_all add: nth_append)
  with s1 show ?thesis by simp
qed

text \<open>
  Claim C5. The name of the i-th symbol is the join, with dots and from the bottom of the
  stack to its top, of the keys of the frames on the stack when the loop has processed
  the i-th token (after its pop and its push); the top frame's key is the i-th token's
  text, \<^verbatim>\<open>content[begin:end]\<close>, stripped of leading and trailing whitespace, and every
  frame's key is the stripped text of the i-th or of an earlier token.
\<close>

theorem name_is_joined_stack:
  assumes "i < length (find_by_selector v KEY_SELECTOR)"
  shows "\<exists>symbols emitted path.
           get_yaml_symbols v = Inr symbols
         \<and> for_regions (buffer v) (take (Suc i) (find_by_selector v KEY_SELECTOR)) ([], [])
             = Inr (emitted, path)
         \<and> i < length symbols
         \<and> name (symbols ! i) = py_join ''.'' (map key path)
         \<and> path \<noteq> []
         \<and> key (last path) =
             py_strip (py_slice (buffer v)
               (region_begin (find_by_selector v KEY_SELECTOR ! i))
               (region_end (find_by_selector v KEY_SELECTOR ! i)))
         \<and> (\<forall>l\<in>set path. \<exists>j\<le>i. key l =
             py_strip (py_slice (buffer v)
               (region_begin (find_by_selector v KEY_SELECTOR ! j))
               (region_end (find_by_selector v KEY_SELECTOR ! j))))"
proof -
  let ?rs = "find_by_selector v KEY_SELECTOR"
  obtain st where st: "for_regions (buffer v) ?rs ([], []) = Inr st"
    and g: "get_yaml_symbols v = Inr (fst st)"
    using get_yaml_symbols_Inr by blast
  from for_regions_nth [OF assms st]
  obtain emitted path where d: "for_regions (buffer v) (take (Suc i) ?rs) ([], []) = Inr (emitted, path)"
    and n: "i < length (fst st)" "fst st ! i = Symbol (py_join ''.'' (map key path)) (?rs ! i)"
           "path \<noteq> []"
           "last path = Level (key_of (buffer v) (?rs ! i)) (indent_level_of (buffer v) (?rs ! i))"
    by blast
  have frames: "\<forall>l\<in>set path. \<exists>j\<le>i. key l =
             py_strip (py_slice (buffer v) (region_begin (?rs ! j)) (region_end (?rs ! j)))"
  proof
    fix l assume "l \<in> set path"
    with for_regions_frames [OF d, of l]
    obtain r where r: "r \<in> set (take (Suc i) ?rs)"
      and l: "l = Level (key_of (buffer v) r) (indent_level_of (buffer v) r)" by auto
    from r obtain j where "j < length (take (Suc i) ?rs)" and "take (Suc i) ?rs ! j = r"
      by (auto simp: in_set_conv_nth)
    then have "j \<le> i" and "?rs ! j = r" by simp_all
    with l show "\<exists>j\<le>i. key l =
             py_strip (py_slice (buffer v) (region_begin (?rs ! j)) (region_end (?rs ! j)))"
      by (auto simp: key_of_def)
  qed
  from g d n frames show ?thesis by (simp add: key_of_def)
qed

theorem name_is_joined_stack_witness:
  "(2::nat) < length (find_by_selector doc_siblings KEY_SELECTOR)
   \<and> get_yaml_symbols doc_siblings =
       Inr [Symbol ''a'' (Region 0 1), Symbol ''a.b'' (Region 5 6), Symbol ''a.c'' (Region 10 11)]
   \<and> for_regions (buffer doc_siblings) (take (Suc 2) (find_by_selector doc_siblings KEY_SELECTOR))
       ([], [])
       = Inr ([Symbol ''a'' (Region 0 1), Symbol ''a.b'' (Region 5 6), Symbol ''a.c'' (Region 10 11)],
              [Level ''a'' 0, Level ''c'' 2])
   \<and> py_join ''.'' (map key [Level ''a'' 0, Level ''c'' 2]) = ''a.c''"
proof -
  have h: "(2::nat) < length (find_by_selector doc_siblings KEY_SELECTOR)"
    by (simp add: doc_siblings_def)
  note t = name_is_joined_stack [OF h]
  have e: "for_regions (buffer doc_siblings) (take (Suc 2) (find_by_selector doc_siblings KEY_SELECTOR))
       ([], [])
       = Inr ([Symbol ''a'' (Region 0 1), Symbol ''a.b'' (Region 5 6), Symbol ''a.c'' (Region 10 11)],
              [Level ''a'' 0, Level ''c'' 2])" by code_simp
  have j: "py_join ''.'' (map key [Level ''a'' 0, Level ''c'' 2]) = ''a.c''" by simp
  from t h e j doc_siblings_symbols show ?thesis by simp
qed

section \<open>Facts about the resolver\<close>

lemma scan_symbols_hit:
  "\<exists>x\<in>set xs. intersects r (region x) \<Longrightarrow>
     \<exists>pre s rest. xs = pre @ s # rest \<and> scan_symbols r xs = (Some s, rest)
        \<and> intersects r (region s) \<and> (\<forall>x\<in>set pre. \<not> intersects r (region x))"
proof (induction xs)
  case Nil then show ?case by simp
next
  case (Cons x xs)
  show ?case
  proof (cases "intersects r (region x)")
    case True
    then have "x # xs = [] @ x # xs \<and> scan_symbols r (x # xs) = (Some x, xs)
        \<and> intersects r (region x) \<and> (\<forall>y\<in>set []. \<not> intersects r (region y))" by simp
    then show ?thesis by blast
  next
    case False
    with Cons.prems have "\<exists>y\<in>set xs. intersects r (region y)" by auto
    from Cons.IH [OF this] obtain pre s rest where
      h: "xs = pre @ s # rest" "scan_symbols r xs = (Some s, rest)"
         "intersects r (region s)" "\<forall>y\<in>set pre. \<not> intersects r (region y)" by blast
    with False have "x # xs = (x # pre) @ s # rest \<and> scan_symbols r (x # xs) = (Some s, rest)
        \<and> intersects r (region s) \<and> (\<forall>y\<in>set (x # pre). \<not> intersects r (region y))" by simp
    then show ?thesis by blast
  qed
qed

lemma scan_symbols_miss:
  "\<forall>x\<in>set xs. \<not> intersects r (region x) \<Longrightarrow> scan_symbols r xs = (None, [])"
  by (induction xs) auto

lemma scan_symbols_None: "scan_symbols r xs = (None, left) \<Longrightarrow> left = []"
  by (induction xs) (auto split: if_splits)

lemma scan_symbols_Some: "scan_symbols r xs = (Some s, left) \<Longrightarrow> s \<in> set xs"
  by (induction xs) (auto split: if_splits)

lemma for_probes_exhausted: "for_probes rs [] = None"
  by (induction rs) auto

lemma for_probes_member: "for_probes rs xs = Some s \<Longrightarrow> s \<in> set xs"
proof (cases rs)
  case Nil
  assume "for_probes rs xs = Some s"
  with Nil show ?thesis by simp
next
  case (Cons r rest)
  assume a: "for_probes rs xs = Some s"
  obtain hit left where sc: "scan_symbols r xs = (hit, left)" by (cases "scan_symbols r xs")
  show ?thesis
  proof (cases hit)
    case None
    with sc have "left = []" using scan_symbols_None by blast
    with a Cons sc None show ?thesis by (simp add: for_probes_exhausted)
  next
    case (Some t)
    with a Cons sc have "t = s" by simp
    with sc Some show ?thesis using scan_symbols_Some by blast
  qed
qed

lemma iter_regions_single:
  "sel v = [s0] \<Longrightarrow> iter_regions v = Region (reg_b s0) (reg_b s0) # s0 # lines v s0"
  by (simp add: iter_regions_def)

lemma first_probe_exhausts_iterator:
  assumes "length (sel v) = 1"
      and "\<forall>s\<in>set symbols. \<not> intersects (Region (reg_b (sel v ! 0)) (reg_b (sel v ! 0))) (region s)"
  shows "get_selected_yaml_symbol symbols v = None"
proof -
  from assms(1) obtain s0 where s0: "sel v = [s0]"
    by (cases "sel v") auto
  then have p: "sel v ! 0 = s0" by simp
  have "scan_symbols (Region (reg_b s0) (reg_b s0)) (rev symbols) = (None, [])"
    using assms(2) p by (intro scan_symbols_miss) simp
  then show ?thesis
    by (simp add: get_selected_yaml_symbol_def iter_regions_single [OF s0] for_probes_exhausted)
qed

subsection \<open>What the resolver returns\<close>

text \<open>
  Claim C6. With exactly one selection whose zero-width caret probe intersects the
  region of at least one symbol, \<^verbatim>\<open>get_selected_yaml_symbol\<close> returns the symbol of
  the highest index among those the probe intersects.
\<close>

theorem caret_hit_returns_last:
  assumes "length (sel v) = 1"
      and "\<exists>s\<in>set symbols.
             intersects (Region (reg_b (sel v ! 0)) (reg_b (sel v ! 0))) (region s)"
  shows "\<exists>i<length symbols.
           get_selected_yaml_symbol symbols v = Some (symbols ! i)
         \<and> intersects (Region (reg_b (sel v ! 0)) (reg_b (sel v ! 0))) (region (symbols ! i))
         \<and> (\<forall>j. i < j \<and> j < length symbols \<longrightarrow>
               \<not> intersects (Region (reg_b (sel v ! 0)) (reg_b (sel v ! 0)))
                   (region (symbols ! j)))"
proof -
  from assms(1) obtain s0 where s0: "sel v = [s0]"
    by (cases "sel v") auto
  let ?probe = "Region (reg_b s0) (reg_b s0)"
  have p: "Region (reg_b (sel v ! 0)) (reg_b (sel v ! 0)) = ?probe" using s0 by simp
  from assms(2) have ne: "symbols \<noteq> []" by auto
  from assms(2) have "\<exists>x\<in>set (rev symbols). intersects ?probe (region x)"
    unfolding p by simp
  from scan_symbols_hit [OF this] obtain pre s rest where
    h: "rev symbols = pre @ s # rest" "scan_symbols ?probe (rev symbols) = (Some s, rest)"
       "intersects ?probe (region s)" "\<forall>x\<in>set pre. \<not> intersects ?probe (region x)"
    by blast
  from h(1) have "rev (rev symbols) = rev (pre @ s # rest)" by simp
  then have sy: "symbols = rev rest @ s # rev pre" by simp
  let ?i = "length rest"
  have i: "?i < length symbols" by (simp add: sy)
  have nth: "symbols ! ?i = s"
    using nth_append_length [of "rev rest" s "rev pre"] by (simp add: sy)
  have res: "get_selected_yaml_symbol symbols v = Some s"
    using ne assms(1) h(2)
    by (simp add: get_selected_yaml_symbol_def iter_regions_single [OF s0])
  have later: "\<forall>j. ?i < j \<and> j < length symbols \<longrightarrow> \<not> intersects ?probe (region (symbols ! j))"
  proof (intro allI impI)
    fix j assume j: "?i < j \<and> j < length symbols"
    then have "symbols ! j = (s # rev pre) ! (j - ?i)"
      by (simp add: sy nth_append)
    also have "\<dots> = rev pre ! (j - ?i - 1)" using j by (simp add: nth_Cons')
    finally have "symbols ! j = rev pre ! (j - ?i - 1)" .
    moreover have "j - ?i - 1 < length (rev pre)" using j unfolding sy by simp arith
    ultimately have "symbols ! j \<in> set (rev pre)" by (metis nth_mem)
    with h(4) show "\<not> intersects ?probe (region (symbols ! j))" by simp
  qed
  from i nth res h(3) later show ?thesis unfolding p by blast
qed

theorem caret_hit_returns_last_witness:
  "length (sel (doc_siblings\<lparr>sel := [Region 2 6]\<rparr>)) = 1
   \<and> intersects (Region 6 6) (region (nested_symbols ! 0))
   \<and> intersects (Region 6 6) (region (nested_symbols ! 1))
   \<and> get_selected_yaml_symbol nested_symbols (doc_siblings\<lparr>sel := [Region 2 6]\<rparr>)
        = Some (Symbol ''a.b'' (Region 4 8))
   \<and> nested_symbols ! 1 = Symbol ''a.b'' (Region 4 8)"
proof -
  let ?v = "doc_siblings\<lparr>sel := [Region 2 6]\<rparr>"
  have h1: "length (sel ?v) = 1" by simp
  have i0: "intersects (Region 6 6) (region (nested_symbols ! 0))"
    by (simp add: nested_symbols_def intersects_def region_begin_def region_end_def)
  have i1: "intersects (Region 6 6) (region (nested_symbols ! 1))"
    by (simp add: nested_symbols_def intersects_def region_begin_def region_end_def)
  have m: "nested_symbols ! 0 \<in> set nested_symbols" by (simp add: nested_symbols_def)
  have h2: "\<exists>s\<in>set nested_symbols.
      intersects (Region (reg_b (sel ?v ! 0)) (reg_b (sel ?v ! 0))) (region s)"
    using i0 m by (intro bexI [of _ "nested_symbols ! 0"]) simp_all
  note t = caret_hit_returns_last [OF h1 h2]
  have e: "get_selected_yaml_symbol nested_symbols ?v = Some (Symbol ''a.b'' (Region 4 8))"
    by code_simp
  have n: "nested_symbols ! 1 = Symbol ''a.b'' (Region 4 8)" by (simp add: nested_symbols_def)
  from t h1 i0 i1 e n show ?thesis by simp
qed

text \<open>
  Claim C7. \<^verbatim>\<open>get_selected_yaml_symbol\<close> returns none when the list of symbols is
  empty, and returns none when the view does not have exactly one selection (none, or
  more than one), whatever the symbols are.
\<close>

theorem no_symbols_or_not_one_selection:
  "symbols = [] \<or> length (sel v) \<noteq> 1 \<Longrightarrow> get_selected_yaml_symbol symbols v = None"
  by (auto simp: get_selected_yaml_symbol_def)

theorem no_symbols_or_not_one_selection_witness:
  "get_selected_yaml_symbol [] (doc_siblings\<lparr>sel := [Region 6 6]\<rparr>) = None
   \<and> length (sel (doc_siblings\<lparr>sel := []\<rparr>)) = 0
   \<and> get_selected_yaml_symbol nested_symbols (doc_siblings\<lparr>sel := []\<rparr>) = None
   \<and> length (sel (doc_siblings\<lparr>sel := [Region 6 6, Region 21 21]\<rparr>)) = 2
   \<and> get_selected_yaml_symbol nested_symbols (doc_siblings\<lparr>sel := [Region 6 6, Region 21 21]\<rparr>)
        = None
   \<and> get_selected_yaml_symbol nested_symbols (doc_siblings\<lparr>sel := [Region 6 6]\<rparr>)
        = Some (Symbol ''a.b'' (Region 4 8))"
proof -
  have a: "get_selected_yaml_symbol [] (doc_siblings\<lparr>sel := [Region 6 6]\<rparr>) = None"
    using no_symbols_or_not_one_selection [of "[]" "doc_siblings\<lparr>sel := [Region 6 6]\<rparr>"]
    by simp
  have b: "get_selected_yaml_symbol nested_symbols (doc_siblings\<lparr>sel := []\<rparr>) = None"
    using no_symbols_or_not_one_selection [of nested_symbols "doc_siblings\<lparr>sel := []\<rparr>"]
    by simp
  have c: "get_selected_yaml_symbol nested_symbols
             (doc_siblings\<lparr>sel := [Region 6 6, Region 21 21]\<rparr>) = None"
    using no_symbols_or_not_one_selection
      [of nested_symbols "doc_siblings\<lparr>sel := [Region 6 6, Region 21 21]\<rparr>"]
    by simp
  have d: "get_selected_yaml_symbol nested_symbols (doc_siblings\<lparr>sel := [Region 6 6]\<rparr>)
        = Some (Symbol ''a.b'' (Region 4 8))" by code_simp
  from a b c d show ?thesis by simp
qed

text \<open>
  Claim C10. A symbol that \<^verbatim>\<open>get_selected_yaml_symbol\<close> returns is an entry of the
  list of symbols it was given, with that entry's name and region.
\<close>

theorem selected_symbol_is_listed:
  assumes "get_selected_yaml_symbol symbols v = Some s"
  shows "s \<in> set symbols \<and> (\<exists>i<length symbols. symbols ! i = s
           \<and> name s = name (symbols ! i) \<and> region s = region (symbols ! i))"
proof -
  from assms have "for_probes (iter_regions v) (rev symbols) = Some s"
    by (simp add: get_selected_yaml_symbol_def split: if_splits)
  then have "s \<in> set (rev symbols)" by (rule for_probes_member)
  then have m: "s \<in> set symbols" by simp
  then obtain i where "i < length symbols" and "symbols ! i = s"
    by (auto simp: in_set_conv_nth)
  with m show ?thesis by auto
qed

theorem selected_symbol_is_listed_witness:
  "get_selected_yaml_symbol nested_symbols (doc_siblings\<lparr>sel := [Region 21 21]\<rparr>)
     = Some (Symbol ''c'' (Region 20 22))
   \<and> Symbol ''c'' (Region 20 22) \<in> set nested_symbols
   \<and> nested_symbols ! 2 = Symbol ''c'' (Region 20 22)"
proof -
  have e: "get_selected_yaml_symbol nested_symbols (doc_siblings\<lparr>sel := [Region 21 21]\<rparr>)
     = Some (Symbol ''c'' (Region 20 22))" by code_simp
  from selected_symbol_is_listed [OF e] e show ?thesis by (simp add: nested_symbols_def)
qed

text \<open>
  Claim C1, evaluated on the code. In \<open>doc_siblings\<close> the caret is at offset 5, where the
  key \<^verbatim>\<open>b\<close> starts; with the selection from 3 to 7 it is at offset 7, the end of that
  line. In both views the caret probe intersects no symbol, and a later probe (the whole
  line from 3 to 7, the selection from 3 to 7) intersects the symbol \<^verbatim>\<open>a.b\<close>: the
  resolver of the spec returns \<^verbatim>\<open>a.b\<close>, and \<^verbatim>\<open>get_selected_yaml_symbol\<close> returns none,
  since the first probe has used up the iterator \<^verbatim>\<open>reversed(symbols)\<close>.
\<close>

theorem later_probes_find_nothing:
  "get_yaml_symbols doc_siblings = Inr siblings_symbols
   \<and> iter_regions doc_siblings = [Region 5 5, Region 5 5, Region 3 7]
   \<and> find (\<lambda>s. intersects (Region 5 5) (region s)) (rev siblings_symbols) = None
   \<and> find (\<lambda>s. intersects (Region 3 7) (region s)) (rev siblings_symbols)
        = Some (Symbol ''a.b'' (Region 5 6))
   \<and> resolveCurrentSymbol_spec siblings_symbols doc_siblings = Some (Symbol ''a.b'' (Region 5 6))
   \<and> get_selected_yaml_symbol siblings_symbols doc_siblings = None
   \<and> iter_regions (doc_siblings\<lparr>sel := [Region 3 7]\<rparr>) = [Region 7 7, Region 3 7, Region 3 7]
   \<and> find (\<lambda>s. intersects (Region 7 7) (region s)) (rev siblings_symbols) = None
   \<and> resolveCurrentSymbol_spec siblings_symbols (doc_siblings\<lparr>sel := [Region 3 7]\<rparr>)
        = Some (Symbol ''a.b'' (Region 5 6))
   \<and> get_selected_yaml_symbol siblings_symbols (doc_siblings\<lparr>sel := [Region 3 7]\<rparr>) = None"
proof -
  have 1: "get_yaml_symbols doc_siblings = Inr siblings_symbols"
    by (simp add: doc_siblings_symbols siblings_symbols_def)
  have 2: "iter_regions doc_siblings = [Region 5 5, Region 5 5, Region 3 7]" by code_simp
  have 3: "find (\<lambda>s. intersects (Region 5 5) (region s)) (rev siblings_symbols) = None"
    by code_simp
  have 4: "find (\<lambda>s. intersects (Region 3 7) (region s)) (rev siblings_symbols)
        = Some (Symbol ''a.b'' (Region 5 6))" by code_simp
  have 5: "resolveCurrentSymbol_spec siblings_symbols doc_siblings
        = Some (Symbol ''a.b'' (Region 5 6))" by code_simp
  have 6: "get_selected_yaml_symbol siblings_symbols doc_siblings = None" by code_simp
  have 7: "iter_regions (doc_siblings\<lparr>sel := [Region 3 7]\<rparr>)
        = [Region 7 7, Region 3 7, Region 3 7]" by code_simp
  have 8: "find (\<lambda>s. intersects (Region 7 7) (region s)) (rev siblings_symbols) = None"
    by code_simp
  have 9: "resolveCurrentSymbol_spec siblings_symbols (doc_siblings\<lparr>sel := [Region 3 7]\<rparr>)
        = Some (Symbol ''a.b'' (Region 5 6))" by code_simp
  have 10: "get_selected_yaml_symbol siblings_symbols (doc_siblings\<lparr>sel := [Region 3 7]\<rparr>) = None"
    by code_simp
  from 1 2 3 4 5 6 7 8 9 10 show ?thesis by blast
qed

end
